theory Spec2Isabelle
  imports Main "HOL-Library.Word"
begin

section \<open>The reset and power-up sequencer of the i6500 wrapper\<close>

text \<open>
  The wrapper \<^verbatim>\<open>i6500.__init__\<close> (litex/soc/cores/cpu/i6500/core.py, lines 240 to 256)
  builds a two-state machine in the \<^verbatim>\<open>sys\<close> clock domain:
  \<^verbatim>\<open>
    trst_timer = WaitTimer(128)
    self.submodules += trst_timer
    self.fsm = fsm = ResetInserter()(FSM(reset_state="RST"))
    fsm.act("RST",
        trst_timer.wait.eq(1),
        self.si_cpc_reset_n.eq(0),
        self.si_cluster_pwr_on_n.eq(0),
        If(trst_timer.done, NextState("PWR_UP")))
    fsm.act("PWR_UP",
        self.si_cpc_reset_n.eq(1),
        self.si_cluster_pwr_on_n.eq(1))
  \<close>
  The registers of the design are the state of the machine and the count of the timer.
  One clock edge of the \<^verbatim>\<open>sys\<close> domain is one step of the model.
\<close>

subsection \<open>State\<close>

text \<open>The two states named by \<^verbatim>\<open>fsm.act\<close>; \<^verbatim>\<open>RST\<close> is the reset state.\<close>

datatype fsm_state = RST | PWR_UP

text \<open>
  The registers: the state register of \<^verbatim>\<open>fsm\<close> and the count register of
  \<^verbatim>\<open>trst_timer\<close>. \<^verbatim>\<open>WaitTimer(128)\<close> needs 8 bits to hold 128.
\<close>

record sequencer =
  state :: fsm_state
  count :: "8 word"

subsection \<open>The timer\<close>

text \<open>
  Modelled from the spec: \<^verbatim>\<open>WaitTimer\<close> of litex/gen/genlib/misc.py is not among the
  sources at hand. The spec describes it as a countdown timer primitive with a
  \<^verbatim>\<open>done\<close> pulse, leaves open on which tick the threshold of 128 ticks shows, and in
  its first testable property takes the release to be visible on tick 129. The model
  follows that: a register that is loaded with 128 on reset and whenever \<^verbatim>\<open>wait\<close> is
  low, is decremented on every edge on which \<^verbatim>\<open>wait\<close> is high and \<^verbatim>\<open>done\<close> is low,
  and raises \<^verbatim>\<open>done\<close>, combinationally, while it holds 0.
\<close>

definition WaitTimer_reset :: "8 word" where
  "WaitTimer_reset = 128"

definition WaitTimer_done :: "8 word \<Rightarrow> bool" where
  "WaitTimer_done c = (c = 0)"

definition WaitTimer_sync :: "bool \<Rightarrow> 8 word \<Rightarrow> 8 word" where
  "WaitTimer_sync wait c =
     (if wait then (if \<not> WaitTimer_done c then c - 1 else c) else WaitTimer_reset)"

subsection \<open>The combinational part of the state machine\<close>

text \<open>
  What \<^verbatim>\<open>fsm.act\<close> drives in each state. A signal with no assignment in a state holds
  its reset value 0 there (\<^verbatim>\<open>trst_timer.wait\<close> in \<^verbatim>\<open>PWR_UP\<close>), and the next state
  is the current one unless \<^verbatim>\<open>NextState\<close> says otherwise.
\<close>

record fsm_comb =
  trst_timer_wait :: bool
  si_cpc_reset_n :: bool
  si_cluster_pwr_on_n :: bool
  next_state :: fsm_state

definition fsm_act :: "fsm_state \<Rightarrow> bool \<Rightarrow> fsm_comb" where
  "fsm_act st done =
     (case st of
        RST \<Rightarrow> \<lparr>trst_timer_wait = True, si_cpc_reset_n = False,
                si_cluster_pwr_on_n = False,
                next_state = (if done then PWR_UP else RST)\<rparr>
      | PWR_UP \<Rightarrow> \<lparr>trst_timer_wait = False, si_cpc_reset_n = True,
                si_cluster_pwr_on_n = True,
                next_state = PWR_UP\<rparr>)"

definition comb :: "sequencer \<Rightarrow> fsm_comb" where
  "comb s = fsm_act (state s) (WaitTimer_done (count s))"

subsection \<open>One clock edge\<close>

text \<open>
  \<^verbatim>\<open>ResetInserter()\<close> gives the machine a reset input of its own, \<^verbatim>\<open>fsm.reset\<close>.
  The wrapper never assigns it, so it stays at 0. The wrapper's \<^verbatim>\<open>self.reset\<close> goes to
  the pin \<^verbatim>\<open>i_si_reset_n\<close> of the instance only (line 74) and not to the machine.
\<close>

definition fsm_reset :: bool where
  "fsm_reset = False"

text \<open>The value every register takes when the \<^verbatim>\<open>sys\<close> domain is reset.\<close>

definition fresh :: sequencer where
  "fresh = \<lparr>state = RST, count = WaitTimer_reset\<rparr>"

text \<open>
  One rising edge of the \<^verbatim>\<open>sys\<close> clock. The reset of the domain has priority over
  every synchronous assignment and loads each register with its reset value.
\<close>

definition sys_tick :: "bool \<Rightarrow> sequencer \<Rightarrow> sequencer" where
  "sys_tick sys_rst s =
     (if sys_rst then fresh
      else \<lparr>state = (if fsm_reset then RST else next_state (comb s)),
            count = WaitTimer_sync (trst_timer_wait (comb s)) (count s)\<rparr>)"

subsection \<open>The sequencer as the spec presents it\<close>

text \<open>
  The spec's outputs are the two active-low pins read with the opposite polarity, its
  state \<^verbatim>\<open>Resetting\<close> is \<^verbatim>\<open>RST\<close>, \<^verbatim>\<open>PoweredUp\<close> is \<^verbatim>\<open>PWR_UP\<close>, its input
  \<^verbatim>\<open>externalResetAsserted\<close> is the reset of the enclosing system, and its
  \<^verbatim>\<open>SettleCounter\<close>, the number of ticks elapsed, is 128 less the count that remains.
\<close>

record ControlOutputs =
  clusterResetAsserted :: bool
  clusterPowerAsserted :: bool

definition outputs :: "sequencer \<Rightarrow> ControlOutputs" where
  "outputs s = \<lparr>clusterResetAsserted = \<not> si_cpc_reset_n (comb s),
               clusterPowerAsserted = \<not> si_cluster_pwr_on_n (comb s)\<rparr>"

definition SettleCounter :: "sequencer \<Rightarrow> int" where
  "SettleCounter s = 128 - uint (count s)"

definition onTick :: "bool \<Rightarrow> sequencer \<Rightarrow> ControlOutputs \<times> sequencer" where
  "onTick externalResetAsserted s =
     (let s' = sys_tick externalResetAsserted s in (outputs s', s'))"

text \<open>A run: one tick for each input of the list, in order.\<close>

fun run :: "bool list \<Rightarrow> sequencer \<Rightarrow> sequencer" where
  "run [] s = s"
| "run (r # rs) s = run rs (snd (onTick r s))"

fun run_outputs :: "bool list \<Rightarrow> sequencer \<Rightarrow> ControlOutputs list" where
  "run_outputs [] s = []"
| "run_outputs (r # rs) s = fst (onTick r s) # run_outputs rs (snd (onTick r s))"

subsection \<open>The wrapper around the sequencer\<close>

text \<open>
  What the wrapper receives on each clock cycle besides the clock: the reset of the
  \<^verbatim>\<open>sys\<close> domain, its own \<^verbatim>\<open>self.reset\<close> (line 61) and \<^verbatim>\<open>self.interrupt\<close>
  (line 62, 7 bits).
\<close>

record cpu_inputs =
  ResetSignal_sys :: bool
  self_reset :: bool
  self_interrupt :: "7 word"

text \<open>
  The entries of \<^verbatim>\<open>cpu_params\<close> that these signals and the state machine drive:
  \<^verbatim>\<open>
    i_si_reset_n          = ~ResetSignal("sys") & ~self.reset,
    i_si_cpc_reset_n      = self.si_cpc_reset_n,
    i_si_cluster_pwr_on_n = self.si_cluster_pwr_on_n,
    i_si_cm_int           = self.interrupt,
  \<close>
  (lines 74, 81, 82 and 171).
\<close>

record cpu_params =
  i_si_reset_n :: bool
  i_si_cpc_reset_n :: bool
  i_si_cluster_pwr_on_n :: bool
  i_si_cm_int :: "7 word"

definition cpu_params_of :: "cpu_inputs \<Rightarrow> sequencer \<Rightarrow> cpu_params" where
  "cpu_params_of inp s =
     \<lparr>i_si_reset_n = (\<not> ResetSignal_sys inp \<and> \<not> self_reset inp),
      i_si_cpc_reset_n = si_cpc_reset_n (comb s),
      i_si_cluster_pwr_on_n = si_cluster_pwr_on_n (comb s),
      i_si_cm_int = self_interrupt inp\<rparr>"

text \<open>
  One tick of the sequencer inside the wrapper. Of the wrapper's inputs, the registers of
  the \<^verbatim>\<open>sys\<close> domain see its reset; no statement of the wrapper connects
  \<^verbatim>\<open>self.reset\<close> or \<^verbatim>\<open>self.interrupt\<close> to the machine or to the timer.
\<close>

definition cpu_onTick :: "cpu_inputs \<Rightarrow> sequencer \<Rightarrow> ControlOutputs \<times> sequencer" where
  "cpu_onTick inp s = onTick (ResetSignal_sys inp) s"

fun cpu_run :: "cpu_inputs list \<Rightarrow> sequencer \<Rightarrow> sequencer" where
  "cpu_run [] s = s"
| "cpu_run (inp # inps) s = cpu_run inps (snd (cpu_onTick inp s))"

fun cpu_run_outputs :: "cpu_inputs list \<Rightarrow> sequencer \<Rightarrow> ControlOutputs list" where
  "cpu_run_outputs [] s = []"
| "cpu_run_outputs (inp # inps) s =
     fst (cpu_onTick inp s) # cpu_run_outputs inps (snd (cpu_onTick inp s))"

section \<open>The address maps of the BIOS\<close>

text \<open>
  \<^verbatim>\<open>i6500.bios_map\<close> (i6500/core.py, lines 296 to 300) and \<^verbatim>\<open>MIPSFPGA.bios_map\<close>
  (mipsfpga/core.py, lines 134 to 138), on Python's unbounded integers.
\<close>

definition i6500_bios_map :: "int \<Rightarrow> bool \<Rightarrow> int" where
  "i6500_bios_map addr cached =
     (if cached then addr + 0xffffffff80000000 else addr + 0xffffffffa0000000)"

definition MIPSFPGA_bios_map :: "int \<Rightarrow> bool \<Rightarrow> int" where
  "MIPSFPGA_bios_map addr cached =
     (if cached then addr + 0x80000000 else addr + 0xa0000000)"

section \<open>Properties\<close>

subsection \<open>Helper facts\<close>

lemma outputs_RST: "state s = RST \<Longrightarrow>
    outputs s = \<lparr>clusterResetAsserted = True, clusterPowerAsserted = True\<rparr>"
  by (simp add: outputs_def comb_def fsm_act_def)

lemma outputs_PWR_UP: "state s = PWR_UP \<Longrightarrow>
    outputs s = \<lparr>clusterResetAsserted = False, clusterPowerAsserted = False\<rparr>"
  by (simp add: outputs_def comb_def fsm_act_def)

lemma sys_tick_reset: "sys_tick True s = fresh"
  by (simp add: sys_tick_def)

lemma sys_tick_PWR_UP: "state s = PWR_UP \<Longrightarrow>
    sys_tick False s = \<lparr>state = PWR_UP, count = WaitTimer_reset\<rparr>"
  by (simp add: sys_tick_def comb_def fsm_act_def fsm_reset_def WaitTimer_sync_def)

lemma sys_tick_RST: "state s = RST \<Longrightarrow>
    sys_tick False s =
      (if count s = 0 then \<lparr>state = PWR_UP, count = 0\<rparr>
       else \<lparr>state = RST, count = count s - 1\<rparr>)"
  by (simp add: sys_tick_def comb_def fsm_act_def fsm_reset_def WaitTimer_sync_def
      WaitTimer_done_def)

lemma snd_onTick: "snd (onTick r s) = sys_tick r s"
  by (simp add: onTick_def Let_def)

lemma fst_onTick: "fst (onTick r s) = outputs (sys_tick r s)"
  by (simp add: onTick_def Let_def)

lemma run_append: "run (rs @ qs) s = run qs (run rs s)"
  by (induction rs arbitrary: s) simp_all

lemma run_snoc: "run (rs @ [r]) s = sys_tick r (run rs s)"
  by (simp add: run_append snd_onTick)

lemma run_outputs_append:
  "run_outputs (rs @ qs) s = run_outputs rs s @ run_outputs qs (run rs s)"
  by (induction rs arbitrary: s) simp_all

lemma length_run_outputs: "length (run_outputs rs s) = length rs"
  by (induction rs arbitrary: s) simp_all

lemma run_replicate_Suc: "run (replicate (Suc n) r) s = sys_tick r (run (replicate n r) s)"
proof -
  have "replicate (Suc n) r = replicate n r @ [r]"
    by (simp add: replicate_append_same)
  then show ?thesis
    by (simp only: run_snoc)
qed

lemma count_down_step:
  assumes "k < 128"
  shows "(word_of_nat (128 - k) :: 8 word) \<noteq> 0"
    and "(word_of_nat (128 - k) :: 8 word) - 1 = word_of_nat (128 - Suc k)"
proof -
  have "unat (word_of_nat (128 - k) :: 8 word) = (128 - k) mod 2 ^ LENGTH(8)"
    by (rule unat_of_nat)
  also have "\<dots> = 128 - k"
    by simp
  finally have "unat (word_of_nat (128 - k) :: 8 word) \<noteq> 0"
    using assms by simp
  then show "(word_of_nat (128 - k) :: 8 word) \<noteq> 0"
    by (metis unat_0)
  have "128 - k = Suc (128 - Suc k)"
    using assms by simp
  then have "(word_of_nat (128 - k) :: 8 word) = word_of_nat (128 - Suc k) + 1"
    by (metis of_nat_Suc add.commute)
  then show "(word_of_nat (128 - k) :: 8 word) - 1 = word_of_nat (128 - Suc k)"
    by simp
qed

lemma run_fresh_settling:
  "k \<le> 128 \<Longrightarrow>
     run (replicate k False) fresh = \<lparr>state = RST, count = word_of_nat (128 - k)\<rparr>"
proof (induction k)
  case 0
  then show ?case by (simp add: fresh_def WaitTimer_reset_def)
next
  case (Suc k)
  then have k: "k < 128" by simp
  with Suc.IH have "run (replicate k False) fresh = \<lparr>state = RST, count = word_of_nat (128 - k)\<rparr>"
    by simp
  then show ?case
    using count_down_step [OF k]
    by (simp only: run_replicate_Suc) (simp add: sys_tick_RST)
qed

lemma run_PWR_UP_state: "state s = PWR_UP \<Longrightarrow> state (run (replicate n False) s) = PWR_UP"
proof (induction n)
  case 0
  then show ?case by simp
next
  case (Suc n)
  then show ?case
    by (simp only: run_replicate_Suc) (simp add: sys_tick_PWR_UP)
qed

lemma run_PWR_UP_count:
  "state s = PWR_UP \<Longrightarrow> count (run (replicate (Suc n) False) s) = WaitTimer_reset"
  using run_PWR_UP_state [of s n]
  by (simp only: run_replicate_Suc) (simp add: sys_tick_PWR_UP)

lemma run_fresh_129:
  "run (replicate 129 False) fresh = \<lparr>state = PWR_UP, count = 0\<rparr>"
proof -
  have "(129::nat) = Suc 128" by simp
  then have "run (replicate 129 False) fresh = sys_tick False (run (replicate 128 False) fresh)"
    by (simp only: run_replicate_Suc)
  then show ?thesis
    using run_fresh_settling [of 128] by (simp add: sys_tick_RST)
qed

lemma run_fresh_released:
  "128 < k \<Longrightarrow> state (run (replicate k False) fresh) = PWR_UP"
proof -
  assume "128 < k"
  then have "replicate k False = replicate 129 False @ replicate (k - 129) False"
    by (simp add: replicate_add [symmetric])
  then show ?thesis
    by (simp add: run_append run_fresh_129 run_PWR_UP_state)
qed

lemma run_fresh_state:
  "state (run (replicate k False) fresh) = (if k \<le> 128 then RST else PWR_UP)"
  by (simp add: run_fresh_settling run_fresh_released)

lemma run_outputs_snoc:
  "run_outputs (rs @ [r]) s = run_outputs rs s @ [outputs (run (rs @ [r]) s)]"
  by (simp add: run_outputs_append run_snoc fst_onTick)

lemma run_outputs_PWR_UP:
  "state s = PWR_UP \<Longrightarrow>
     run_outputs (replicate n False) s =
       replicate n \<lparr>clusterResetAsserted = False, clusterPowerAsserted = False\<rparr>"
proof (induction n arbitrary: s)
  case 0
  then show ?case by simp
next
  case (Suc n)
  have st: "state (sys_tick False s) = PWR_UP"
    using Suc.prems by (simp add: sys_tick_PWR_UP)
  then show ?case
    using Suc.IH [OF st] by (simp add: fst_onTick snd_onTick outputs_PWR_UP)
qed

lemma run_outputs_settling:
  "k \<le> 128 \<Longrightarrow>
     run_outputs (replicate k False) fresh =
       replicate k \<lparr>clusterResetAsserted = True, clusterPowerAsserted = True\<rparr>"
proof (induction k)
  case 0
  then show ?case by simp
next
  case (Suc k)
  have "replicate (Suc k) False = replicate k False @ [False]"
    by (simp add: replicate_append_same)
  then have "run_outputs (replicate (Suc k) False) fresh =
      run_outputs (replicate k False) fresh @ [outputs (run (replicate (Suc k) False) fresh)]"
    by (simp only: run_outputs_snoc)
  moreover have "state (run (replicate (Suc k) False) fresh) = RST"
    using Suc.prems by (simp only: run_fresh_state) simp
  ultimately show ?case
    using Suc by (simp add: outputs_RST replicate_append_same)
qed

lemma run_outputs_129:
  "run_outputs (replicate 129 False) fresh =
     replicate 128 \<lparr>clusterResetAsserted = True, clusterPowerAsserted = True\<rparr>
     @ [\<lparr>clusterResetAsserted = False, clusterPowerAsserted = False\<rparr>]"
proof -
  have e: "(129::nat) = Suc 128"
    by simp
  have "replicate 129 False = replicate 128 False @ [False]"
    unfolding e by (simp only: replicate_append_same replicate_Suc)
  then have "run_outputs (replicate 129 False) fresh =
      run_outputs (replicate 128 False) fresh @ [outputs (run (replicate 129 False) fresh)]"
    by (simp only: run_outputs_snoc)
  then show ?thesis
    by (simp add: run_outputs_settling run_fresh_129 outputs_PWR_UP)
qed

lemma run_reset_held: "run (replicate (Suc n) True) s = fresh"
  by (simp only: run_replicate_Suc sys_tick_reset)

lemma run_outputs_reset_held:
  "run_outputs (replicate n True) s =
     replicate n \<lparr>clusterResetAsserted = True, clusterPowerAsserted = True\<rparr>"
  by (induction n arbitrary: s)
    (simp_all add: fst_onTick snd_onTick sys_tick_reset outputs_RST fresh_def)

lemma uint_count_step: "c \<noteq> 0 \<Longrightarrow> uint (c - 1 :: 8 word) = uint c - 1"
proof -
  assume "c \<noteq> 0"
  then have dec: "unat (c - 1) = unat c - 1" and pos: "0 < unat c"
    by (simp_all add: unat_minus_one unat_gt_0)
  have "uint (c - 1) = int (unat (c - 1))"
    by (rule uint_nat)
  also have "\<dots> = int (unat c) - 1"
    using pos by (simp only: dec)
  also have "\<dots> = uint c - 1"
    by (simp only: uint_nat)
  finally show ?thesis .
qed

lemma count_bounded_step:
  "uint (count s) \<le> 128 \<Longrightarrow> uint (count (sys_tick r s)) \<le> 128"
proof (cases r)
  case True
  then show ?thesis by (simp add: sys_tick_reset fresh_def WaitTimer_reset_def)
next
  case False
  assume b: "uint (count s) \<le> 128"
  show ?thesis
  proof (cases "state s")
    case RST
    then show ?thesis
      using False b by (simp add: sys_tick_RST uint_count_step)
  next
    case PWR_UP
    then show ?thesis
      using False by (simp add: sys_tick_PWR_UP WaitTimer_reset_def)
  qed
qed

lemma count_bounded: "uint (count (run rs fresh)) \<le> 128"
proof (induction rs rule: rev_induct)
  case Nil
  then show ?case by (simp add: fresh_def WaitTimer_reset_def)
next
  case (snoc r rs)
  then show ?case
    by (simp only: run_snoc count_bounded_step)
qed

lemma SettleCounter_step:
  assumes "uint (count s) \<le> 128"
  shows "SettleCounter (sys_tick r s) =
           (if \<not> r \<and> state s = RST \<and> count s \<noteq> 0 then SettleCounter s + 1
            else if \<not> r \<and> state s = RST then SettleCounter s
            else 0)"
proof (cases r)
  case True
  then show ?thesis
    by (simp add: sys_tick_reset fresh_def WaitTimer_reset_def SettleCounter_def)
next
  case False
  then show ?thesis
    by (cases "state s")
      (simp_all add: sys_tick_RST sys_tick_PWR_UP SettleCounter_def WaitTimer_reset_def
        uint_count_step)
qed

lemma SettleCounter_settling:
  "k \<le> 128 \<Longrightarrow> SettleCounter (run (replicate k False) fresh) = int k"
proof -
  assume k: "k \<le> 128"
  have "unat (word_of_nat (128 - k) :: 8 word) = (128 - k) mod 2 ^ LENGTH(8)"
    by (rule unat_of_nat)
  then have "uint (word_of_nat (128 - k) :: 8 word) = int (128 - k)"
    by (simp add: uint_nat)
  then show ?thesis
    using k by (simp only: run_fresh_settling [OF k] SettleCounter_def) simp
qed

lemma run_fresh_late:
  "129 < k \<Longrightarrow> count (run (replicate k False) fresh) = WaitTimer_reset"
proof -
  assume "129 < k"
  then have "k - 129 = Suc (k - 130)" and "replicate k False = replicate 129 False @ replicate (k - 129) False"
    by (simp_all add: replicate_add [symmetric])
  then have "replicate k False = replicate 129 False @ replicate (Suc (k - 130)) False"
    by (simp only:)
  then have "run (replicate k False) fresh =
      run (replicate (Suc (k - 130)) False) (run (replicate 129 False) fresh)"
    by (simp only: run_append)
  then show ?thesis
    by (simp only: run_fresh_129) (simp only: run_PWR_UP_count sequencer.simps)
qed

lemma cpu_run_run: "cpu_run xs s = run (map ResetSignal_sys xs) s"
  by (induction xs arbitrary: s) (simp_all add: cpu_onTick_def)

lemma cpu_run_outputs_run_outputs:
  "cpu_run_outputs xs s = run_outputs (map ResetSignal_sys xs) s"
  by (induction xs arbitrary: s) (simp_all add: cpu_onTick_def)

lemma take_run_outputs_append:
  "take (length rs) (run_outputs (rs @ qs) s) = run_outputs rs s"
  by (simp add: run_outputs_append length_run_outputs)

subsection \<open>The settling period\<close>

text \<open>
  C1. In a run that starts from the freshly reset sequencer and has the external reset
  low on every tick, both outputs are asserted on each of the ticks 1 to 128 and both
  are released on tick 129 and on every later tick. The first part is the whole trace of
  a run of any length; the second is the output of tick \<open>k + 1\<close> alone.
\<close>

theorem settling_outputs:
  "run_outputs (replicate n False) fresh =
     replicate (min n 128) \<lparr>clusterResetAsserted = True, clusterPowerAsserted = True\<rparr>
     @ replicate (n - 128) \<lparr>clusterResetAsserted = False, clusterPowerAsserted = False\<rparr>
   \<and> fst (onTick False (run (replicate k False) fresh)) =
       (if Suc k \<le> 128
        then \<lparr>clusterResetAsserted = True, clusterPowerAsserted = True\<rparr>
        else \<lparr>clusterResetAsserted = False, clusterPowerAsserted = False\<rparr>)"
proof -
  have trace: "run_outputs (replicate n False) fresh =
     replicate (min n 128) \<lparr>clusterResetAsserted = True, clusterPowerAsserted = True\<rparr>
     @ replicate (n - 128) \<lparr>clusterResetAsserted = False, clusterPowerAsserted = False\<rparr>"
  proof (cases "n \<le> 128")
    case True
    then show ?thesis by (simp add: run_outputs_settling min_def)
  next
    case False
    then have split: "replicate n False = replicate 129 False @ replicate (n - 129) False"
      by (simp add: replicate_add [symmetric])
    have rest: "n - 128 = Suc (n - 129)"
      using False by simp
    have "run_outputs (replicate n False) fresh =
        run_outputs (replicate 129 False) fresh
        @ run_outputs (replicate (n - 129) False) (run (replicate 129 False) fresh)"
      by (simp only: split run_outputs_append)
    also have "\<dots> =
        replicate 128 \<lparr>clusterResetAsserted = True, clusterPowerAsserted = True\<rparr>
        @ replicate (Suc (n - 129))
            \<lparr>clusterResetAsserted = False, clusterPowerAsserted = False\<rparr>"
      by (simp add: run_outputs_129 run_fresh_129 run_outputs_PWR_UP)
    finally show ?thesis
      using False by (simp only: rest) (simp add: min_def)
  qed
  have "fst (onTick False (run (replicate k False) fresh)) =
      outputs (run (replicate (Suc k) False) fresh)"
    by (simp only: fst_onTick run_replicate_Suc)
  moreover have "state (run (replicate (Suc k) False) fresh) =
      (if Suc k \<le> 128 then RST else PWR_UP)"
    by (rule run_fresh_state)
  ultimately have "fst (onTick False (run (replicate k False) fresh)) =
       (if Suc k \<le> 128
        then \<lparr>clusterResetAsserted = True, clusterPowerAsserted = True\<rparr>
        else \<lparr>clusterResetAsserted = False, clusterPowerAsserted = False\<rparr>)"
    by (simp add: outputs_RST outputs_PWR_UP)
  with trace show ?thesis
    by (rule conjI)
qed

text \<open>
  C2. Whatever the state and the count, a tick with the external reset asserted leaves
  the machine in \<^verbatim>\<open>RST\<close> with a settle counter of 0, which is the freshly reset
  sequencer, and both outputs asserted.
\<close>

theorem reset_forces_Resetting:
  "state (snd (onTick True s)) = RST
   \<and> SettleCounter (snd (onTick True s)) = 0
   \<and> snd (onTick True s) = fresh
   \<and> fst (onTick True s) = \<lparr>clusterResetAsserted = True, clusterPowerAsserted = True\<rparr>"
  by (simp add: snd_onTick fst_onTick sys_tick_reset outputs_RST fresh_def
      SettleCounter_def WaitTimer_reset_def)

text \<open>
  C3. Both outputs are asserted exactly when the state is \<^verbatim>\<open>RST\<close>, and both are
  released exactly when it is \<^verbatim>\<open>PWR_UP\<close>; this holds in every state, so in every
  reachable one, and for the outputs a tick returns against the state it leaves.
\<close>

theorem outputs_iff_Resetting:
  "((clusterResetAsserted (outputs s) \<and> clusterPowerAsserted (outputs s)) = (state s = RST))
   \<and> ((\<not> clusterResetAsserted (outputs s) \<and> \<not> clusterPowerAsserted (outputs s))
        = (state s = PWR_UP))
   \<and> ((clusterResetAsserted (fst (onTick r s)) \<and> clusterPowerAsserted (fst (onTick r s)))
        = (state (snd (onTick r s)) = RST))"
proof -
  have "\<And>t. ((clusterResetAsserted (outputs t) \<and> clusterPowerAsserted (outputs t))
                 = (state t = RST))
            \<and> ((\<not> clusterResetAsserted (outputs t) \<and> \<not> clusterPowerAsserted (outputs t))
                 = (state t = PWR_UP))"
    subgoal for t
      by (cases "state t") (simp_all add: outputs_RST outputs_PWR_UP)
    done
  then show ?thesis
    by (simp add: fst_onTick snd_onTick)
qed

text \<open>
  C4, as amended. A tick moves the machine from \<^verbatim>\<open>RST\<close> to \<^verbatim>\<open>PWR_UP\<close> exactly
  when the external reset is low and the settle counter already stood at 128 when the
  tick began: the tick after the one on which the counter reaches 128. From the freshly
  reset sequencer with the reset low, the state is \<^verbatim>\<open>RST\<close> after each of the first 128
  ticks and \<^verbatim>\<open>PWR_UP\<close> after tick 129 and later, while the counter reads \<open>k\<close> after
  tick \<open>k\<close> up to 128, still 128 after tick 129, and 0 from then on.
\<close>

theorem transition_after_done:
  "(state s = RST \<and> state (snd (onTick r s)) = PWR_UP)
     = (state s = RST \<and> \<not> r \<and> SettleCounter s = 128)
   \<and> state (run (replicate k False) fresh) = (if k \<le> 128 then RST else PWR_UP)
   \<and> SettleCounter (run (replicate k False) fresh)
       = (if k \<le> 128 then int k else if k = 129 then 128 else 0)"
proof -
  have "(SettleCounter s = 128) = (count s = 0)"
    by (simp add: SettleCounter_def uint_0_iff)
  then have step: "(state s = RST \<and> state (snd (onTick r s)) = PWR_UP)
      = (state s = RST \<and> \<not> r \<and> SettleCounter s = 128)"
    by (cases r; cases "state s")
      (simp_all add: snd_onTick sys_tick_reset sys_tick_RST fresh_def)
  have late: "SettleCounter (run (replicate k False) fresh) = 0" if "129 < k"
    using run_fresh_late [OF that] by (simp add: SettleCounter_def WaitTimer_reset_def)
  have "SettleCounter (run (replicate 129 False) fresh) = 128"
    by (simp add: run_fresh_129 SettleCounter_def)
  then have "SettleCounter (run (replicate k False) fresh)
       = (if k \<le> 128 then int k else if k = 129 then 128 else 0)"
    using late by (simp add: SettleCounter_settling)
  with step show ?thesis
    by (simp only: run_fresh_state)
qed

text \<open>
  C4, as stated, fails: tick 128 of such a run takes the settle counter from 127 to 128
  and the state after it is still \<^verbatim>\<open>RST\<close>, with both outputs asserted.
\<close>

theorem transition_same_tick_counterexample:
  "state (run (replicate 127 False) fresh) = RST
   \<and> SettleCounter (run (replicate 127 False) fresh) = 127
   \<and> SettleCounter (snd (onTick False (run (replicate 127 False) fresh))) = 128
   \<and> state (snd (onTick False (run (replicate 127 False) fresh))) = RST
   \<and> fst (onTick False (run (replicate 127 False) fresh))
       = \<lparr>clusterResetAsserted = True, clusterPowerAsserted = True\<rparr>"
proof -
  have "run (replicate 127 False) fresh = \<lparr>state = RST, count = 1\<rparr>"
    using run_fresh_settling [of 127] by simp
  then show ?thesis
    by (simp add: snd_onTick fst_onTick sys_tick_RST outputs_RST SettleCounter_def)
qed

subsection \<open>Reset held, and the released state\<close>

text \<open>
  C5. While the external reset is asserted on every tick, from any state, the machine
  is in \<^verbatim>\<open>RST\<close> after every tick, never in \<^verbatim>\<open>PWR_UP\<close>, and every tick returns both
  outputs asserted; the same from the freshly reset sequencer for runs of any length.
\<close>

theorem held_reset_stays_Resetting:
  "state (run (replicate (Suc n) True) s) = RST
   \<and> state (run (replicate (Suc n) True) s) \<noteq> PWR_UP
   \<and> state (run (replicate n True) fresh) = RST
   \<and> run_outputs (replicate n True) s =
       replicate n \<lparr>clusterResetAsserted = True, clusterPowerAsserted = True\<rparr>"
proof -
  have "state (run (replicate n True) fresh) = RST"
    by (cases n) (simp_all only: run_reset_held, simp_all add: fresh_def)
  moreover have "state (run (replicate (Suc n) True) s) = RST"
    by (simp only: run_reset_held) (simp add: fresh_def)
  ultimately show ?thesis
    by (simp only: run_outputs_reset_held) simp
qed

text \<open>
  C6. From \<^verbatim>\<open>PWR_UP\<close>, any number of ticks with the external reset low leave the
  state at \<^verbatim>\<open>PWR_UP\<close> and return both outputs released every time; one tick leaves
  \<^verbatim>\<open>PWR_UP\<close> for \<^verbatim>\<open>RST\<close> exactly when the external reset is asserted on it.
\<close>

theorem PoweredUp_stable:
  "state s = PWR_UP \<Longrightarrow>
     state (run (replicate n False) s) = PWR_UP
     \<and> run_outputs (replicate n False) s =
         replicate n \<lparr>clusterResetAsserted = False, clusterPowerAsserted = False\<rparr>
     \<and> (state (snd (onTick r s)) = RST) = r"
proof -
  assume st: "state s = PWR_UP"
  have "(state (snd (onTick r s)) = RST) = r"
    using st by (cases r) (simp_all add: snd_onTick sys_tick_reset sys_tick_PWR_UP fresh_def)
  moreover note run_PWR_UP_state [OF st, of n] run_outputs_PWR_UP [OF st, of n]
  ultimately show ?thesis
    by (intro conjI)
qed

theorem PoweredUp_stable_witness:
  "state \<lparr>state = PWR_UP, count = 0\<rparr> = PWR_UP
   \<and> state (run (replicate 3 False) \<lparr>state = PWR_UP, count = 0\<rparr>) = PWR_UP
   \<and> run_outputs (replicate 3 False) \<lparr>state = PWR_UP, count = 0\<rparr> =
       replicate 3 \<lparr>clusterResetAsserted = False, clusterPowerAsserted = False\<rparr>
   \<and> (state (snd (onTick True \<lparr>state = PWR_UP, count = 0\<rparr>)) = RST) = True"
  using PoweredUp_stable [of "\<lparr>state = PWR_UP, count = 0\<rparr>" 3 True]
  by simp

subsection \<open>The counter\<close>

text \<open>
  C7. In every state reachable from the freshly reset sequencer the settle counter lies
  between 0 and 128, and a tick raises it only when the state is \<^verbatim>\<open>RST\<close> and the
  external reset is low, and then by exactly one.
\<close>

theorem SettleCounter_range:
  "0 \<le> SettleCounter (run rs fresh) \<and> SettleCounter (run rs fresh) \<le> 128
   \<and> (SettleCounter (run rs fresh) < SettleCounter (snd (onTick r (run rs fresh))) \<longrightarrow>
        state (run rs fresh) = RST \<and> \<not> r
        \<and> SettleCounter (snd (onTick r (run rs fresh))) = SettleCounter (run rs fresh) + 1)"
proof -
  have b: "uint (count (run rs fresh)) \<le> 128"
    by (rule count_bounded)
  then have range: "0 \<le> SettleCounter (run rs fresh) \<and> SettleCounter (run rs fresh) \<le> 128"
    by (simp add: SettleCounter_def)
  show ?thesis
    using range by (simp add: snd_onTick SettleCounter_step [OF b])
qed

theorem SettleCounter_range_witness:
  "SettleCounter (run [] fresh) < SettleCounter (snd (onTick False (run [] fresh)))
   \<and> 0 \<le> SettleCounter (run [] fresh) \<and> SettleCounter (run [] fresh) \<le> 128
   \<and> state (run [] fresh) = RST
   \<and> SettleCounter (snd (onTick False (run [] fresh))) = SettleCounter (run [] fresh) + 1"
  using SettleCounter_range [of "[]" False]
  by (simp add: snd_onTick sys_tick_RST fresh_def WaitTimer_reset_def SettleCounter_def)

subsection \<open>Determinism and the outputs\<close>

text \<open>
  C8. A tick is a function of the state before it and of its reset input alone: it
  returns the outputs of the state it computes. In a run, the output of tick
  \<open>N\<close> is that function of the state after tick \<open>N - 1\<close> and of input \<open>N\<close>, and the
  outputs up to tick \<open>N\<close> are the same whatever inputs follow. Inside the wrapper
  nothing else reaches the sequencer: two ticks from the same state whose inputs agree
  on the reset of the \<^verbatim>\<open>sys\<close> domain return the same outputs and the same state,
  whatever \<^verbatim>\<open>self.reset\<close> and \<^verbatim>\<open>self.interrupt\<close> are; two runs from the same state
  whose inputs agree on that reset tick by tick reach the same state and return the same
  outputs, whatever the other inputs are and whatever follows in either run; and the two
  pins the machine drives are read from the state alone.
\<close>

theorem onTick_causal:
  "onTick r s = (outputs (sys_tick r s), sys_tick r s)
   \<and> run_outputs (rs @ r # future) s ! length rs = fst (onTick r (run rs s))
   \<and> run (rs @ [r]) s = snd (onTick r (run rs s))
   \<and> take (Suc (length rs)) (run_outputs (rs @ r # future) s) = run_outputs (rs @ [r]) s
   \<and> (ResetSignal_sys i = ResetSignal_sys j \<longrightarrow> cpu_onTick i s = cpu_onTick j s)
   \<and> (map ResetSignal_sys xs = map ResetSignal_sys ys \<longrightarrow>
        cpu_run xs s = cpu_run ys s
        \<and> take (length xs) (cpu_run_outputs (xs @ fut) s)
            = take (length ys) (cpu_run_outputs (ys @ fut') s))
   \<and> i_si_cpc_reset_n (cpu_params_of i s) = (\<not> clusterResetAsserted (outputs s))
   \<and> i_si_cluster_pwr_on_n (cpu_params_of i s) = (\<not> clusterPowerAsserted (outputs s))"
proof -
  have "run_outputs (rs @ r # future) s =
      run_outputs rs s @ fst (onTick r (run rs s)) # run_outputs future (run (rs @ [r]) s)"
    by (simp add: run_outputs_append run_append)
  moreover have "length (run_outputs rs s) = length rs"
    by (rule length_run_outputs)
  ultimately have single:
    "onTick r s = (outputs (sys_tick r s), sys_tick r s)
     \<and> run_outputs (rs @ r # future) s ! length rs = fst (onTick r (run rs s))
     \<and> run (rs @ [r]) s = snd (onTick r (run rs s))
     \<and> take (Suc (length rs)) (run_outputs (rs @ r # future) s) = run_outputs (rs @ [r]) s"
    by (simp add: onTick_def Let_def run_snoc run_outputs_append nth_append)
  have step: "ResetSignal_sys i = ResetSignal_sys j \<longrightarrow> cpu_onTick i s = cpu_onTick j s"
    by (simp add: cpu_onTick_def)
  have runs: "map ResetSignal_sys xs = map ResetSignal_sys ys \<longrightarrow>
        cpu_run xs s = cpu_run ys s
        \<and> take (length xs) (cpu_run_outputs (xs @ fut) s)
            = take (length ys) (cpu_run_outputs (ys @ fut') s)"
  proof
    assume eq: "map ResetSignal_sys xs = map ResetSignal_sys ys"
    have "take (length xs) (cpu_run_outputs (xs @ fut) s)
        = take (length (map ResetSignal_sys xs))
            (run_outputs (map ResetSignal_sys xs @ map ResetSignal_sys fut) s)"
      by (simp add: cpu_run_outputs_run_outputs)
    also have "\<dots> = run_outputs (map ResetSignal_sys xs) s"
      by (rule take_run_outputs_append)
    finally have left: "take (length xs) (cpu_run_outputs (xs @ fut) s)
        = run_outputs (map ResetSignal_sys xs) s" .
    have "take (length ys) (cpu_run_outputs (ys @ fut') s)
        = take (length (map ResetSignal_sys ys))
            (run_outputs (map ResetSignal_sys ys @ map ResetSignal_sys fut') s)"
      by (simp add: cpu_run_outputs_run_outputs)
    also have "\<dots> = run_outputs (map ResetSignal_sys ys) s"
      by (rule take_run_outputs_append)
    finally have right: "take (length ys) (cpu_run_outputs (ys @ fut') s)
        = run_outputs (map ResetSignal_sys ys) s" .
    show "cpu_run xs s = cpu_run ys s
        \<and> take (length xs) (cpu_run_outputs (xs @ fut) s)
            = take (length ys) (cpu_run_outputs (ys @ fut') s)"
      using eq by (simp only: left right cpu_run_run)
  qed
  have pins: "i_si_cpc_reset_n (cpu_params_of i s) = (\<not> clusterResetAsserted (outputs s))
      \<and> i_si_cluster_pwr_on_n (cpu_params_of i s) = (\<not> clusterPowerAsserted (outputs s))"
    by (simp add: cpu_params_of_def outputs_def)
  from single step runs pins show ?thesis
    by (intro conjI) (elim conjE, assumption)+
qed

text \<open>
  The same at two concrete inputs that differ in \<^verbatim>\<open>self.reset\<close> and in
  \<^verbatim>\<open>self.interrupt\<close> and are followed by different inputs: the sequencer does not tell
  them apart, while the pin \<^verbatim>\<open>i_si_reset_n\<close> does.
\<close>

theorem onTick_causal_witness:
  "ResetSignal_sys \<lparr>ResetSignal_sys = False, self_reset = True, self_interrupt = 5\<rparr>
     = ResetSignal_sys \<lparr>ResetSignal_sys = False, self_reset = False, self_interrupt = 0\<rparr>
   \<and> map ResetSignal_sys
        [\<lparr>ResetSignal_sys = False, self_reset = True, self_interrupt = 5\<rparr>]
       = map ResetSignal_sys
        [\<lparr>ResetSignal_sys = False, self_reset = False, self_interrupt = 0\<rparr>]
   \<and> cpu_onTick \<lparr>ResetSignal_sys = False, self_reset = True, self_interrupt = 5\<rparr> fresh
       = cpu_onTick \<lparr>ResetSignal_sys = False, self_reset = False, self_interrupt = 0\<rparr> fresh
   \<and> cpu_run [\<lparr>ResetSignal_sys = False, self_reset = True, self_interrupt = 5\<rparr>] fresh
       = cpu_run [\<lparr>ResetSignal_sys = False, self_reset = False, self_interrupt = 0\<rparr>] fresh
   \<and> take (length [\<lparr>ResetSignal_sys = False, self_reset = True, self_interrupt = 5\<rparr>])
        (cpu_run_outputs
          ([\<lparr>ResetSignal_sys = False, self_reset = True, self_interrupt = 5\<rparr>]
           @ [\<lparr>ResetSignal_sys = True, self_reset = False, self_interrupt = 0\<rparr>]) fresh)
       = take (length [\<lparr>ResetSignal_sys = False, self_reset = False, self_interrupt = 0\<rparr>])
        (cpu_run_outputs
          ([\<lparr>ResetSignal_sys = False, self_reset = False, self_interrupt = 0\<rparr>] @ []) fresh)
   \<and> i_si_reset_n
        (cpu_params_of \<lparr>ResetSignal_sys = False, self_reset = True, self_interrupt = 5\<rparr> fresh)
       \<noteq> i_si_reset_n
        (cpu_params_of \<lparr>ResetSignal_sys = False, self_reset = False, self_interrupt = 0\<rparr> fresh)"
  using onTick_causal
    [where i = "\<lparr>ResetSignal_sys = False, self_reset = True, self_interrupt = 5\<rparr>"
       and j = "\<lparr>ResetSignal_sys = False, self_reset = False, self_interrupt = 0\<rparr>"
       and xs = "[\<lparr>ResetSignal_sys = False, self_reset = True, self_interrupt = 5\<rparr>]"
       and ys = "[\<lparr>ResetSignal_sys = False, self_reset = False, self_interrupt = 0\<rparr>]"
       and fut = "[\<lparr>ResetSignal_sys = True, self_reset = False, self_interrupt = 0\<rparr>]"
       and fut' = "[]" and s = fresh]
  by (simp add: cpu_params_of_def)

text \<open>
  C9. The two outputs are equal to each other in every state, as are the two pins that
  carry them, for the outputs of a tick and in every state reachable from the freshly
  reset sequencer.
\<close>

theorem outputs_equal:
  "clusterResetAsserted (outputs s) = clusterPowerAsserted (outputs s)
   \<and> si_cpc_reset_n (comb s) = si_cluster_pwr_on_n (comb s)
   \<and> clusterResetAsserted (fst (onTick r s)) = clusterPowerAsserted (fst (onTick r s))
   \<and> clusterResetAsserted (outputs (run rs fresh)) = clusterPowerAsserted (outputs (run rs fresh))"
proof -
  have "\<And>t. clusterResetAsserted (outputs t) = clusterPowerAsserted (outputs t)
            \<and> si_cpc_reset_n (comb t) = si_cluster_pwr_on_n (comb t)"
    subgoal for t
      by (cases "state t") (simp_all add: outputs_def comb_def fsm_act_def)
    done
  then show ?thesis
    by (simp add: fst_onTick)
qed

subsection \<open>The address maps\<close>

text \<open>
  C10. For every address, the uncached address of the i6500 BIOS map is the cached one
  plus 0x2000_0000, the cached one being the address plus 0xffff_ffff_8000_0000 and the
  uncached one the address plus 0xffff_ffff_a000_0000; the MIPSFPGA map has the same
  relation with the bases 0x8000_0000 and 0xa000_0000.
\<close>

theorem bios_map_uncached_offset:
  "i6500_bios_map addr False = i6500_bios_map addr True + 0x20000000
   \<and> i6500_bios_map addr True = addr + 0xffffffff80000000
   \<and> i6500_bios_map addr False = addr + 0xffffffffa0000000
   \<and> MIPSFPGA_bios_map addr False = MIPSFPGA_bios_map addr True + 0x20000000
   \<and> MIPSFPGA_bios_map addr True = addr + 0x80000000
   \<and> MIPSFPGA_bios_map addr False = addr + 0xa0000000"
  by (simp add: i6500_bios_map_def MIPSFPGA_bios_map_def)

end
